theory Spec2Isabelle
  imports Complex_Main "HOL-Library.Multiset"
begin

section \<open>The planner engine of app.py\<close>

text \<open>
  The planner works on Python floats. In the allocator, hours are modelled as exact
  rationals, and Python's \<^verbatim>\<open>round\<close> as rounding to the nearest integer (or tenth)
  with ties going to the even neighbour. The general results on plans use only four
  facts about rounding to one decimal: the result is a multiple of one tenth, it is
  within one twentieth of the argument, rounding is monotone, and a multiple of one
  tenth is left unchanged. The concrete weeks evaluated below round no value that lies
  halfway between two tenths. The ranking key and the productivity score depend on the
  last bit of a float, so their arithmetic is rounded to double precision.
\<close>

subsection \<open>Data\<close>

record subject =
  sid :: int
  total_hours :: rat
  priority :: int
  deadline :: string
  completed_hours :: rat

record block =
  subject_id :: int
  hours :: rat

record session =
  session_subject :: int
  session_hours :: rat
  status :: string

text \<open>
  The plan is the dict built over \<^verbatim>\<open>DAYS\<close>; it is kept as the list of its seven
  values in key order, so entry \<open>i\<close> is \<^verbatim>\<open>plan[DAYS[i]]\<close>.
\<close>

type_synonym plan = "block list list"

definition DAYS :: "string list" where
  "DAYS = [''Monday'', ''Tuesday'', ''Wednesday'', ''Thursday'', ''Friday'',
           ''Saturday'', ''Sunday'']"

subsection \<open>Rounding\<close>

definition py_round :: "rat \<Rightarrow> int" where
  "py_round x =
     (let f = \<lfloor>x\<rfloor>; d = x - of_int f in
      if d < 1 / 2 then f
      else if 1 / 2 < d then f + 1
      else if even f then f else f + 1)"

definition round1 :: "rat \<Rightarrow> rat" where
  "round1 x = of_int (py_round (x * 10)) / 10"

definition is_tenth :: "rat \<Rightarrow> bool" where
  "is_tenth x = (round1 x = x)"

subsection \<open>Double precision\<close>

text \<open>
  Where the code divides, multiplies, adds or subtracts floats and the claims depend on
  the last bit, the operation is the exact one followed by \<open>fl\<close>, rounding to the
  nearest number with a 53-bit significand, ties to the even significand. The exponent
  is not bounded: overflow and subnormal numbers, which dates, 64-bit priorities and
  hours of any plausible size do not reach, are left out. \<open>expo x\<close> is the exponent
  of the leading bit of a positive \<open>x\<close>, and \<open>bits n\<close> the number of binary digits of
  \<open>n\<close>.
\<close>

fun bits :: "nat \<Rightarrow> nat" where
  "bits n = (if n = 0 then 0 else Suc (bits (n div 2)))"

declare bits.simps [simp del]

definition pow2 :: "int \<Rightarrow> rat" where
  "pow2 e = (if 0 \<le> e then 2 ^ nat e else 1 / 2 ^ nat (- e))"

definition expo :: "rat \<Rightarrow> int" where
  "expo x = (if 1 \<le> x then int (bits (nat \<lfloor>x\<rfloor>)) - 1
             else - int (bits (nat (- \<lfloor>- (1 / x)\<rfloor> - 1))))"

definition fl :: "rat \<Rightarrow> rat" where
  "fl x = (if x = 0 then 0
           else (let u = pow2 (expo \<bar>x\<bar> - 52) in of_int (py_round (x / u)) * u))"

text \<open>
  The builtin \<^verbatim>\<open>sum\<close> over floats is a parameter of the score below, since its
  rounding is the interpreter's: CPython adds from left to right, from version 3.12 with
  a compensation term. \<open>py_sum\<close> is the plain sum from left to right; the two agree on
  lists of one or two floats.
\<close>

definition py_sum :: "rat list \<Rightarrow> rat" where
  "py_sum xs = foldl (\<lambda>a x. fl (a + x)) 0 xs"

subsection \<open>Urgency and ranking\<close>

text \<open>
  \<^verbatim>\<open>days_until\<close> reads the clock and parses the deadline with the library's
  \<^verbatim>\<open>strptime\<close>. Both are parameters: \<open>today\<close> is the ordinal of the current date,
  and \<open>strptime s\<close> is the ordinal of the parsed date, or \<open>None\<close> when the call raises.
\<close>

definition days_until :: "(string \<Rightarrow> int option) \<Rightarrow> int \<Rightarrow> string \<Rightarrow> int" where
  "days_until strptime today deadline_str =
     (case strptime deadline_str of
        Some dl \<Rightarrow> max 1 (dl - today)
      | None \<Rightarrow> 30)"

text \<open>
  The key \<^verbatim>\<open>s["priority"] * 10 + min(50, 100 / d)\<close>. The quotient of the two
  integers is a float; \<^verbatim>\<open>min\<close> returns the integer 50 unless the float is smaller;
  the sum is then an exact integer, or the float sum of the priority term converted to
  float and the quotient. Keys are compared by value.
\<close>

definition urgency :: "(string \<Rightarrow> int option) \<Rightarrow> int \<Rightarrow> subject \<Rightarrow> rat" where
  "urgency strptime today s =
     (let d = days_until strptime today (deadline s);
          q = fl (100 / of_int d)
      in if q < 50 then fl (fl (of_int (priority s * 10)) + q)
         else of_int (priority s * 10 + 50))"

text \<open>The urgency as the specification words it, in exact arithmetic.\<close>

definition spec_urgency :: "(string \<Rightarrow> int option) \<Rightarrow> int \<Rightarrow> subject \<Rightarrow> rat" where
  "spec_urgency strptime today s =
     of_int (priority s) * 10 +
       min 50 (100 / of_int (case strptime (deadline s) of
                               Some dl \<Rightarrow> max 1 (dl - today) | None \<Rightarrow> 30))"

text \<open>
  \<^verbatim>\<open>sorted(xs, key=k, reverse=True)\<close> is a stable sort into descending key order:
  elements with equal keys keep their input order. That is the stable ascending sort on
  the negated key.
\<close>

definition sorted_reverse :: "('a \<Rightarrow> rat) \<Rightarrow> 'a list \<Rightarrow> 'a list" where
  "sorted_reverse k xs = sort_key (\<lambda>x. - k x) xs"

definition get_priority_order ::
    "(string \<Rightarrow> int option) \<Rightarrow> int \<Rightarrow> subject list \<Rightarrow> subject list" where
  "get_priority_order strptime today subjects =
     sorted_reverse (urgency strptime today) subjects"

subsection \<open>The allocator\<close>

definition max_block :: "subject \<Rightarrow> rat" where
  "max_block sub = (if priority sub = 3 then 3 else if priority sub = 2 then 2 else 3 / 2)"

definition append_block :: "plan \<Rightarrow> nat \<Rightarrow> block \<Rightarrow> plan" where
  "append_block plan day_idx b = plan[day_idx := plan ! day_idx @ [b]]"

text \<open>
  The inner \<^verbatim>\<open>while\<close> loop for one subject. It need not terminate, so it is a
  partial function: \<open>None\<close> stands for a loop that runs forever.
\<close>

partial_function (option) alloc_while ::
    "rat \<Rightarrow> subject \<Rightarrow> rat \<Rightarrow> plan \<Rightarrow> nat \<Rightarrow> rat \<Rightarrow> (plan \<times> nat \<times> rat) option" where
  "alloc_while hours_per_day sub remaining plan day_idx day_hours =
     (if 0 < remaining \<and> day_idx < 7 then
        (let available = hours_per_day - day_hours in
         if available \<le> 0 then
           alloc_while hours_per_day sub remaining plan (day_idx + 1) 0
         else
           (let block = round1 (min remaining (min available (max_block sub)));
                plan' = append_block plan day_idx \<lparr>subject_id = sid sub, hours = block\<rparr>;
                remaining' = round1 (remaining - block);
                day_hours' = round1 (day_hours + block)
            in if hours_per_day \<le> day_hours' then
                 alloc_while hours_per_day sub remaining' plan' (day_idx + 1) 0
               else
                 alloc_while hours_per_day sub remaining' plan' day_idx day_hours'))
      else Some (plan, day_idx, day_hours))"

declare alloc_while.simps [code]

text \<open>The \<^verbatim>\<open>for\<close> loop over the sorted subjects.\<close>

fun alloc_for :: "rat \<Rightarrow> subject list \<Rightarrow> plan \<Rightarrow> nat \<Rightarrow> rat \<Rightarrow> (plan \<times> nat \<times> rat) option" where
  "alloc_for hours_per_day [] plan day_idx day_hours = Some (plan, day_idx, day_hours)"
| "alloc_for hours_per_day (sub # subs) plan day_idx day_hours =
     (case alloc_while hours_per_day sub (total_hours sub) plan day_idx day_hours of
        None \<Rightarrow> None
      | Some (plan', day_idx', day_hours') \<Rightarrow>
          alloc_for hours_per_day subs plan' day_idx' day_hours')"

definition ai_generate_plan ::
    "(string \<Rightarrow> int option) \<Rightarrow> int \<Rightarrow> subject list \<Rightarrow> rat \<Rightarrow> plan option" where
  "ai_generate_plan strptime today subjects hours_per_day =
     (let plan = map (\<lambda>d. []) DAYS in
      if subjects = [] then Some plan
      else
        (let sorted_subs = sorted_reverse (urgency strptime today) subjects in
         case alloc_for hours_per_day sorted_subs plan 0 0 of
           None \<Rightarrow> None
         | Some (plan', day_idx, day_hours) \<Rightarrow> Some plan'))"

subsection \<open>The productivity score\<close>

definition calc_productivity_score ::
    "(rat list \<Rightarrow> rat) \<Rightarrow> subject list \<Rightarrow> session list \<Rightarrow> int" where
  "calc_productivity_score fsum subjects sessions =
     (let total_h = fsum (map total_hours subjects);
          done_h = fsum (map completed_hours subjects);
          missed = int (length (filter (\<lambda>s. status s = ''missed'') sessions))
      in if total_h = 0 then 0
         else
           (let base = fl (fl (done_h / total_h) * 100);
                penalty = min (missed * 3) 25
            in max 0 (py_round (fl (base - of_int penalty)))))"

subsection \<open>Measures of a plan\<close>

definition day_sum :: "plan \<Rightarrow> nat \<Rightarrow> rat" where
  "day_sum plan d = sum_list (map hours (plan ! d))"


text \<open>
  The invariant of the day cursor: the hours used on the current day are the sum of its
  blocks, a multiple of one tenth and, unless zero, below the capacity; closed days are
  within a twentieth of the capacity or empty; later days are empty.
\<close>

definition day_inv :: "rat \<Rightarrow> plan \<Rightarrow> nat \<Rightarrow> rat \<Rightarrow> bool" where
  "day_inv hpd p i d \<longleftrightarrow>
     length p = 7 \<and> is_tenth d \<and> (d = 0 \<or> d < hpd) \<and>
     (\<forall>k<7. day_sum p k \<le> hpd + 1 / 20 \<or> day_sum p k = 0) \<and>
     (i < 7 \<longrightarrow> day_sum p i = d) \<and>
     (\<forall>k<7. i < k \<longrightarrow> p ! k = [])"



text \<open>
  The score as the specification words it, in exact arithmetic, from the three
  aggregates.
\<close>

definition spec_penalty :: "int \<Rightarrow> int" where
  "spec_penalty missedCount = min (missedCount * 3) 25"

definition spec_score :: "rat \<Rightarrow> rat \<Rightarrow> int \<Rightarrow> int" where
  "spec_score totalH doneH missedCount =
     (if totalH = 0 then 0
      else max 0 (py_round (doneH / totalH * 100 - of_int (spec_penalty missedCount))))"

section \<open>Rounding to one decimal\<close>

lemma floor_rat_numeral [simp]:
  fixes a b :: num
  shows "\<lfloor>numeral a / numeral b :: rat\<rfloor> = numeral a div numeral b"
    and "\<lfloor>- (numeral a / numeral b) :: rat\<rfloor> = - numeral a div numeral b"
    and "\<lfloor>1 / numeral b :: rat\<rfloor> = 1 div numeral b"
    and "\<lfloor>- (1 / numeral b) :: rat\<rfloor> = - 1 div numeral b"
  using floor_divide_of_int_eq [where ?'a = rat, of "numeral a" "numeral b"]
    floor_divide_of_int_eq [where ?'a = rat, of "- numeral a" "numeral b"]
    floor_divide_of_int_eq [where ?'a = rat, of 1 "numeral b"]
    floor_divide_of_int_eq [where ?'a = rat, of "- 1" "numeral b"]
  by simp_all

lemma bits_numeral [simp]:
  "bits 0 = 0" "bits 1 = 1" "bits (Suc 0) = 1"
  "bits (numeral (Num.Bit0 n)) = Suc (bits (numeral n))"
  "bits (numeral (Num.Bit1 n)) = Suc (bits (numeral n))"
  by (subst bits.simps, simp)+

lemma py_round_of_int: "py_round (of_int k) = k"
  by (simp add: py_round_def)

lemma py_round_upper: "of_int (py_round x) \<le> x + 1 / 2"
  unfolding py_round_def Let_def by (auto; linarith)

lemma py_round_lower: "x - 1 / 2 \<le> of_int (py_round x)"
  unfolding py_round_def Let_def by (auto; linarith)

lemma py_round_ge_floor: "\<lfloor>x\<rfloor> \<le> py_round x"
  unfolding py_round_def Let_def by auto

lemma py_round_le_floor1: "py_round x \<le> \<lfloor>x\<rfloor> + 1"
  unfolding py_round_def Let_def by auto

lemma py_round_mono: assumes "x \<le> y" shows "py_round x \<le> py_round y"
proof (cases "\<lfloor>x\<rfloor> = \<lfloor>y\<rfloor>")
  case True
  with assms show ?thesis unfolding py_round_def Let_def by auto
next
  case False
  moreover from assms have "\<lfloor>x\<rfloor> \<le> \<lfloor>y\<rfloor>" by (rule floor_mono)
  ultimately have "\<lfloor>x\<rfloor> < \<lfloor>y\<rfloor>" by linarith
  then have "py_round x \<le> \<lfloor>y\<rfloor>" using py_round_le_floor1 [of x] by linarith
  then show ?thesis using py_round_ge_floor [of y] by linarith
qed

lemma round1_of_int: "round1 (of_int k / 10) = of_int k / 10"
  by (simp add: round1_def py_round_of_int)

lemma is_tenth_iff: "is_tenth x \<longleftrightarrow> (\<exists>k::int. x = of_int k / 10)"
  unfolding is_tenth_def
proof
  assume "round1 x = x"
  then have "x = of_int (py_round (x * 10)) / 10" by (simp add: round1_def)
  then show "\<exists>k::int. x = of_int k / 10" ..
next
  assume "\<exists>k::int. x = of_int k / 10"
  then obtain k :: int where "x = of_int k / 10" ..
  then show "round1 x = x" by (simp only: round1_of_int)
qed

lemma is_tenth_round1: "is_tenth (round1 x)"
  unfolding is_tenth_iff round1_def by blast

lemma is_tenth_0: "is_tenth 0"
  unfolding is_tenth_iff by (rule exI [of _ 0]) simp

lemma is_tenth_add: "is_tenth x \<Longrightarrow> is_tenth y \<Longrightarrow> is_tenth (x + y)"
  unfolding is_tenth_iff
proof -
  assume "\<exists>k::int. x = of_int k / 10" "\<exists>k::int. y = of_int k / 10"
  then obtain k l :: int where "x = of_int k / 10" "y = of_int l / 10" by blast
  then have "x + y = of_int (k + l) / 10" by (simp add: add_divide_distrib)
  then show "\<exists>k::int. x + y = of_int k / 10" ..
qed

lemma is_tenth_diff: "is_tenth x \<Longrightarrow> is_tenth y \<Longrightarrow> is_tenth (x - y)"
  unfolding is_tenth_iff
proof -
  assume "\<exists>k::int. x = of_int k / 10" "\<exists>k::int. y = of_int k / 10"
  then obtain k l :: int where "x = of_int k / 10" "y = of_int l / 10" by blast
  then have "x - y = of_int (k - l) / 10" by (simp add: diff_divide_distrib)
  then show "\<exists>k::int. x - y = of_int k / 10" ..
qed

lemma is_tenth_max_block: "is_tenth (max_block sub)"
  unfolding is_tenth_iff max_block_def
proof -
  have "(3::rat) = of_int 30 / 10" "(2::rat) = of_int 20 / 10" "(3 / 2::rat) = of_int 15 / 10"
    by simp_all
  then show "\<exists>k::int. (if priority sub = 3 then 3 else if priority sub = 2 then 2 else 3 / 2) = (of_int k / 10 :: rat)"
    by (metis (full_types))
qed

lemma round1_mono: "x \<le> y \<Longrightarrow> round1 x \<le> round1 y"
  unfolding round1_def using py_round_mono [of "x * 10" "y * 10"]
  by (simp add: divide_right_mono)

lemma round1_upper: "round1 x \<le> x + 1 / 20"
  unfolding round1_def using py_round_upper [of "x * 10"] by simp

lemma round1_lower: "x - 1 / 20 \<le> round1 x"
  unfolding round1_def using py_round_lower [of "x * 10"] by simp

lemma round1_tenth: "is_tenth x \<Longrightarrow> round1 x = x"
  by (simp add: is_tenth_def)

lemma round1_le_tenth: "x \<le> y \<Longrightarrow> is_tenth y \<Longrightarrow> round1 x \<le> y"
  using round1_mono [of x y] by (simp add: is_tenth_def)

lemma round1_ge_tenth: "y \<le> x \<Longrightarrow> is_tenth y \<Longrightarrow> y \<le> round1 x"
  using round1_mono [of y x] by (simp add: is_tenth_def)

lemma tenth_pos: assumes "is_tenth x" "0 < x" shows "1 / 10 \<le> x"
proof -
  from assms(1) obtain k :: int where k: "x = of_int k / 10" unfolding is_tenth_iff by blast
  with assms(2) have "0 < k" by simp
  then have "1 \<le> k" by simp
  then have "(1::rat) \<le> of_int k" by simp
  with k show ?thesis by simp
qed

section \<open>Reasoning about the loops\<close>

text \<open>
  An invariant rule for the \<^verbatim>\<open>while\<close> loop: a predicate on the loop variables that
  holds at entry and is kept by the branch that only advances the day and by the branch
  that emits a block holds at exit, where the loop condition is false.
\<close>

text \<open>One unfolding of the loop, by the branch taken.\<close>

lemma alloc_while_exit:
  "\<not> (0 < rem \<and> di < 7) \<Longrightarrow> alloc_while hpd sub rem plan di dh = Some (plan, di, dh)"
  by (subst alloc_while.simps) (simp only: if_False)

lemma alloc_while_skip:
  "0 < rem \<Longrightarrow> di < 7 \<Longrightarrow> hpd - dh \<le> 0 \<Longrightarrow>
   alloc_while hpd sub rem plan di dh = alloc_while hpd sub rem plan (di + 1) 0"
  by (subst alloc_while.simps) simp

lemma alloc_while_step:
  "0 < rem \<Longrightarrow> di < 7 \<Longrightarrow> 0 < hpd - dh \<Longrightarrow>
   alloc_while hpd sub rem plan di dh =
     (let block = round1 (min rem (min (hpd - dh) (max_block sub)));
          plan' = append_block plan di \<lparr>subject_id = sid sub, hours = block\<rparr>;
          remaining' = round1 (rem - block);
          day_hours' = round1 (dh + block)
      in if hpd \<le> day_hours' then alloc_while hpd sub remaining' plan' (di + 1) 0
         else alloc_while hpd sub remaining' plan' di day_hours')"
  by (subst alloc_while.simps) (simp add: Let_def)

lemmas fl_eval = fl_def expo_def pow2_def py_round_def Let_def

lemmas eval_defs = ai_generate_plan_def sorted_reverse_def urgency_def days_until_def DAYS_def
  max_block_def round1_def append_block_def fl_eval
  alloc_while_exit alloc_while_skip alloc_while_step

lemma alloc_while_rule:
  assumes run: "alloc_while hpd sub rem plan di dh = Some (plan', di', dh')"
    and init: "I rem plan di dh"
    and skip: "\<And>rem plan di dh.
        I rem plan di dh \<Longrightarrow> 0 < rem \<Longrightarrow> di < 7 \<Longrightarrow> hpd - dh \<le> 0 \<Longrightarrow> I rem plan (di + 1) 0"
    and step: "\<And>rem plan di dh b.
        I rem plan di dh \<Longrightarrow> 0 < rem \<Longrightarrow> di < 7 \<Longrightarrow> 0 < hpd - dh \<Longrightarrow>
        b = round1 (min rem (min (hpd - dh) (max_block sub))) \<Longrightarrow>
        I (round1 (rem - b)) (append_block plan di \<lparr>subject_id = sid sub, hours = b\<rparr>)
          (if hpd \<le> round1 (dh + b) then di + 1 else di)
          (if hpd \<le> round1 (dh + b) then 0 else round1 (dh + b))"
  shows "\<exists>rem'. I rem' plan' di' dh' \<and> \<not> (0 < rem' \<and> di' < 7)"
proof -
  let ?P = "\<lambda>h s r p i d y. h = hpd \<and> s = sub \<longrightarrow> I r p i d \<longrightarrow>
        (\<exists>rem'. I rem' (fst y) (fst (snd y)) (snd (snd y)) \<and> \<not> (0 < rem' \<and> fst (snd y) < 7))"
  have "?P hpd sub rem plan di dh (plan', di', dh')"
  proof (rule alloc_while.raw_induct [where P = ?P, OF _ run], goal_cases)
    case (1 f h s r p i d y)
    show ?case
    proof (intro impI)
      assume eq: "h = hpd \<and> s = sub" and inv: "I r p i d"
      show "\<exists>rem'. I rem' (fst y) (fst (snd y)) (snd (snd y)) \<and> \<not> (0 < rem' \<and> fst (snd y) < 7)"
      proof (cases "0 < r \<and> i < 7")
        case False
        with 1(2) have "y = (p, i, d)" by simp
        with inv False show ?thesis by auto
      next
        case True
        show ?thesis
        proof (cases "hpd - d \<le> 0")
          case skipc: True
          with True 1(2) eq have "f hpd sub r p (i + 1) 0 = Some y" by (simp add: Let_def)
          moreover from True skipc have "I r p (i + 1) 0" by (intro skip [OF inv]) auto
          ultimately show ?thesis using 1(1) by blast
        next
          case stepc: False
          define b where "b = round1 (min r (min (hpd - d) (max_block sub)))"
          have inv': "I (round1 (r - b)) (append_block p i \<lparr>subject_id = sid sub, hours = b\<rparr>)
              (if hpd \<le> round1 (d + b) then i + 1 else i)
              (if hpd \<le> round1 (d + b) then 0 else round1 (d + b))"
            using inv True stepc b_def by (intro step) auto
          from True stepc 1(2) eq have "f hpd sub (round1 (r - b))
              (append_block p i \<lparr>subject_id = sid sub, hours = b\<rparr>)
              (if hpd \<le> round1 (d + b) then i + 1 else i)
              (if hpd \<le> round1 (d + b) then 0 else round1 (d + b)) = Some y"
            by (simp add: Let_def b_def split: if_splits)
          with inv' show ?thesis using 1(1) by blast
        qed
      qed
    qed
  qed
  with init show ?thesis by simp
qed

section \<open>Blocks and their caps\<close>

lemma mset_concat_append_block:
  assumes "i < length plan"
  shows "mset (concat (append_block plan i b)) = add_mset b (mset (concat plan))"
proof -
  have "plan = take i plan @ plan ! i # drop (Suc i) plan"
    using assms by (rule id_take_nth_drop)
  then have "concat plan = concat (take i plan @ plan ! i # drop (Suc i) plan)"
    by simp
  then have "concat plan = concat (take i plan) @ plan ! i @ concat (drop (Suc i) plan)"
    by (simp only: concat_append concat.simps)
  moreover have "concat (append_block plan i b) =
      concat (take i plan) @ (plan ! i @ [b]) @ concat (drop (Suc i) plan)"
    unfolding append_block_def using assms by (simp add: upd_conv_take_nth_drop)
  ultimately show ?thesis by (simp only: mset_append mset.simps) simp
qed

lemma append_block_beyond: "\<not> i < length plan \<Longrightarrow> append_block plan i b = plan"
  by (simp add: append_block_def list_update_beyond)

lemma set_concat_append_block:
  "set (concat (append_block plan i b)) \<subseteq> insert b (set (concat plan))"
proof (cases "i < length plan")
  case True
  from mset_concat_append_block [OF True, of b]
  have "set_mset (mset (concat (append_block plan i b))) = set_mset (add_mset b (mset (concat plan)))"
    by simp
  then show ?thesis by simp
next
  case False
  then show ?thesis by (auto simp: append_block_beyond)
qed

lemma block_le_max_block: "round1 (min r (min a (max_block sub))) \<le> max_block sub"
  by (rule round1_le_tenth) (simp_all add: is_tenth_max_block)

lemma alloc_while_blocks:
  assumes "alloc_while hpd sub rem plan di dh = Some (plan', di', dh')"
  shows "set (concat plan') \<subseteq>
         set (concat plan) \<union> {b. subject_id b = sid sub \<and> hours b \<le> max_block sub}"
proof -
  let ?B = "set (concat plan) \<union> {b. subject_id b = sid sub \<and> hours b \<le> max_block sub}"
  let ?I = "\<lambda>(r::rat) p (i::nat) (d::rat). set (concat p) \<subseteq> ?B"
  have "\<exists>rem'. ?I rem' plan' di' dh' \<and> \<not> (0 < rem' \<and> di' < 7)"
  proof (rule alloc_while_rule [where I = ?I, OF assms], goal_cases)
    case 1
    show ?case by blast
  next
    case (2 r p i d)
    then show ?case by simp
  next
    case (3 r p i d b)
    have "\<lparr>subject_id = sid sub, hours = b\<rparr> \<in> ?B"
      using 3(5) block_le_max_block [of r "hpd - d" sub] by simp
    with 3(1) set_concat_append_block [of p i "\<lparr>subject_id = sid sub, hours = b\<rparr>"]
    show ?case by blast
  qed
  then show ?thesis by simp
qed

lemma alloc_for_blocks:
  "alloc_for hpd subs plan di dh = Some (plan', di', dh') \<Longrightarrow>
   set (concat plan') \<subseteq> set (concat plan) \<union>
     (\<Union>s \<in> set subs. {b. subject_id b = sid s \<and> hours b \<le> max_block s})"
proof (induction subs arbitrary: plan di dh)
  case Nil
  then show ?case by simp
next
  case (Cons s subs)
  from Cons.prems obtain p1 i1 d1 where
    w: "alloc_while hpd s (total_hours s) plan di dh = Some (p1, i1, d1)" and
    f: "alloc_for hpd subs p1 i1 d1 = Some (plan', di', dh')"
    by (auto split: option.splits)
  from alloc_while_blocks [OF w] Cons.IH [OF f] show ?case
    by (simp only: list.set UN_insert) blast
qed

lemma set_sorted_reverse: "set (sorted_reverse k xs) = set xs"
  by (simp add: sorted_reverse_def)

lemma sorted_reverse_mset: "mset (sorted_reverse k xs) = mset xs"
  by (simp add: sorted_reverse_def)

lemma sorted_reverse_descending: "sorted_wrt (\<lambda>a b. k b \<le> k a) (sorted_reverse k xs)"
proof -
  have "sorted (map (\<lambda>x. - k x) (sort_key (\<lambda>x. - k x) xs))" by (rule sorted_sort_key)
  then show ?thesis by (simp add: sorted_reverse_def sorted_map)
qed

lemma sorted_reverse_stable:
  "filter (\<lambda>x. k x = v) (sorted_reverse k xs) = filter (\<lambda>x. k x = v) xs"
  using sort_key_stable [of "\<lambda>x. - k x" "- v" xs] by (simp add: sorted_reverse_def)

text \<open>
  C4. Every block of a returned plan belongs to one of the input subjects and has at most
  that subject's cap: 3 hours when its priority is 3, 2 hours when its priority is 2, and
  1.5 hours for any other priority, whether in range or not.
\<close>

theorem block_cap:
  assumes "ai_generate_plan strptime today subjects hours_per_day = Some plan"
    and "b \<in> set (concat plan)"
  shows "\<exists>s \<in> set subjects. sid s = subject_id b \<and>
           hours b \<le> (if priority s = 3 then 3 else if priority s = 2 then 2 else 3 / 2)"
proof (cases "subjects = []")
  case True
  with assms show ?thesis by (auto simp: ai_generate_plan_def DAYS_def Let_def)
next
  case False
  with assms(1) obtain di dh where
    "alloc_for hours_per_day (sorted_reverse (urgency strptime today) subjects)
       (map (\<lambda>d. []) DAYS) 0 0 = Some (plan, di, dh)"
    by (auto simp: ai_generate_plan_def Let_def split: option.splits)
  from alloc_for_blocks [OF this] assms(2)
  have "b \<in> (\<Union>s \<in> set subjects. {b. subject_id b = sid s \<and> hours b \<le> max_block s})"
    by (auto simp: set_sorted_reverse DAYS_def)
  then obtain s where "s \<in> set subjects" "subject_id b = sid s" "hours b \<le> max_block s"
    by blast
  then show ?thesis unfolding max_block_def by (intro bexI [of _ s]) simp_all
qed

section \<open>Capacity that is not positive\<close>

lemma alloc_while_no_capacity:
  assumes "hpd \<le> 0"
  shows "\<exists>di'. alloc_while hpd sub rem plan di 0 = Some (plan, di', 0)"
proof (induction "7 - di" arbitrary: di)
  case 0
  then have "\<not> di < 7" by simp
  then show ?case by (subst alloc_while.simps) simp
next
  case (Suc n)
  then have lt: "di < 7" and n: "n = 7 - (di + 1)" by simp_all
  from Suc.hyps(1) [OF n] obtain di' where
    "alloc_while hpd sub rem plan (di + 1) 0 = Some (plan, di', 0)" ..
  with assms lt show ?case by (subst alloc_while.simps) simp
qed

lemma alloc_for_no_capacity:
  assumes "hpd \<le> 0"
  shows "\<exists>di'. alloc_for hpd subs plan di 0 = Some (plan, di', 0)"
proof (induction subs arbitrary: di)
  case Nil
  then show ?case by simp
next
  case (Cons s subs)
  from alloc_while_no_capacity [OF assms] obtain i1 where
    "alloc_while hpd s (total_hours s) plan di 0 = Some (plan, i1, 0)" ..
  moreover from Cons.IH obtain i2 where "alloc_for hpd subs plan i1 0 = Some (plan, i2, 0)" ..
  ultimately show ?case by simp
qed

text \<open>
  C9. With a daily capacity of zero or less the allocator returns, for every subject list,
  the plan whose seven days are all empty; no subject receives a block and nothing is
  raised.
\<close>

theorem no_capacity_empty_plan:
  assumes "hours_per_day \<le> 0"
  shows "ai_generate_plan strptime today subjects hours_per_day =
         Some [[], [], [], [], [], [], []]"
proof -
  from alloc_for_no_capacity [OF assms] obtain di' where
    "alloc_for hours_per_day (sorted_reverse (urgency strptime today) subjects)
       (map (\<lambda>d. []) DAYS) 0 0 = Some (map (\<lambda>d. []) DAYS, di', 0)" ..
  then show ?thesis by (simp add: ai_generate_plan_def DAYS_def Let_def)
qed

section \<open>Blocks that round to zero\<close>

lemma round1_small: assumes "0 < x" "x < 1 / 20" shows "round1 x = 0"
proof (rule ccontr)
  assume nz: "round1 x \<noteq> 0"
  have "round1 0 \<le> round1 x" using assms(1) by (intro round1_mono) simp
  then have "0 \<le> round1 x" by (simp add: round1_tenth is_tenth_0)
  with nz have "0 < round1 x" by simp
  then have "1 / 10 \<le> round1 x" using is_tenth_round1 by (rule tenth_pos [rotated])
  moreover have "round1 x \<le> x + 1 / 20" by (rule round1_upper)
  ultimately show False using assms(2) by simp
qed

lemma max_block_ge: "3 / 2 \<le> max_block sub"
  by (simp add: max_block_def)

lemma alloc_while_stuck:
  assumes rem: "0 < rem" "is_tenth rem" and di: "di < 7" and dh: "is_tenth dh"
    and av: "0 < hpd - dh" "hpd - dh < 1 / 20"
  shows "alloc_while hpd sub rem plan di dh = None"
proof (rule ccontr)
  assume "alloc_while hpd sub rem plan di dh \<noteq> None"
  then obtain y where run: "alloc_while hpd sub rem plan di dh = Some y" by blast
  let ?P = "\<lambda>h s r (p::plan) i d (y::plan \<times> nat \<times> rat).
              \<not> (h = hpd \<and> s = sub \<and> r = rem \<and> i = di \<and> d = dh)"
  have "?P hpd sub rem plan di dh y"
  proof (rule alloc_while.raw_induct [where P = ?P, OF _ run], goal_cases)
    case (1 f h s r p i d y)
    show ?case
    proof
      assume eq: "h = hpd \<and> s = sub \<and> r = rem \<and> i = di \<and> d = dh"
      have "1 / 10 \<le> rem" using rem(2,1) by (rule tenth_pos)
      with av max_block_ge [of sub]
      have "min rem (min (hpd - dh) (max_block sub)) = hpd - dh" by simp
      with av have b0: "round1 (min rem (min (hpd - dh) (max_block sub))) = 0"
        by (simp add: round1_small)
      from 1(2) eq rem di av b0 dh
      have "f hpd sub rem (append_block p di \<lparr>subject_id = sid sub, hours = 0\<rparr>) di dh = Some y"
        by (simp add: Let_def round1_tenth split: if_splits)
      from 1(1) [OF this] show False by simp
    qed
  qed
  then show False by simp
qed

text \<open>
  C3. The claim is that the allocator terminates on every input. With a capacity of 1.04
  hours and one low-priority subject of 2 hours it does not: after a first block of
  1.0 hour the day has 0.04 hours left, every further block rounds to 0.0, and neither
  the remaining workload nor the day changes again.
\<close>

theorem allocate_diverges:
  "ai_generate_plan strptime today
     [\<lparr>sid = 1, total_hours = 2, priority = 1, deadline = ''2026-12-01'',
       completed_hours = 0\<rparr>] (26 / 25) = None"
proof -
  let ?s = "\<lparr>sid = 1, total_hours = 2, priority = 1, deadline = ''2026-12-01'',
            completed_hours = 0\<rparr>"
  let ?p = "[[\<lparr>subject_id = 1, hours = 1\<rparr>], [], [], [], [], [], []]"
  have "alloc_while (26 / 25) ?s 2 [[], [], [], [], [], [], []] 0 0 =
        alloc_while (26 / 25) ?s 1 ?p 0 1"
    by (subst alloc_while_step)
       (simp_all add: max_block_def round1_def py_round_def append_block_def Let_def)
  moreover have "alloc_while (26 / 25) ?s 1 ?p 0 1 = None"
    by (rule alloc_while_stuck) (simp_all add: is_tenth_def round1_def py_round_def Let_def)
  ultimately show ?thesis
    by (simp add: ai_generate_plan_def sorted_reverse_def DAYS_def Let_def)
qed

text \<open>
  C5. The claim is that no block has zero hours. A subject of 0.04 hours gets one block,
  which rounds to 0.0 hours.
\<close>

theorem zero_hours_block:
  "ai_generate_plan strptime today
     [\<lparr>sid = 1, total_hours = 1 / 25, priority = 1, deadline = ''2026-12-01'',
       completed_hours = 0\<rparr>] 5 =
   Some [[\<lparr>subject_id = 1, hours = 0\<rparr>], [], [], [], [], [], []]"
  by (simp add: eval_defs)

lemma plan_one_subject:
  "ai_generate_plan strptime today
     [\<lparr>sid = 1, total_hours = 5, priority = 3, deadline = ''2026-12-01'',
       completed_hours = 0\<rparr>] 5 =
   Some [[\<lparr>subject_id = 1, hours = 3\<rparr>, \<lparr>subject_id = 1, hours = 2\<rparr>],
         [], [], [], [], [], []]"
  by (simp add: eval_defs)

text \<open>
  C10. Some inputs give one subject several blocks on one day: a high-priority subject of
  5 hours with a capacity of 5 hours gets blocks of 3 and 2 hours on Monday, so its hours
  on that day exceed its cap of 3 hours and fill the whole day.
\<close>

theorem several_blocks_one_day:
  "\<exists>subjects hours_per_day plan s d.
     ai_generate_plan strptime today subjects hours_per_day = Some plan \<and>
     s \<in> set subjects \<and> d < 7 \<and>
     1 < length (filter (\<lambda>b. subject_id b = sid s) (plan ! d)) \<and>
     (if priority s = 3 then 3 else if priority s = 2 then 2 else 3 / 2) <
       sum_list (map hours (filter (\<lambda>b. subject_id b = sid s) (plan ! d))) \<and>
     sum_list (map hours (filter (\<lambda>b. subject_id b = sid s) (plan ! d))) = hours_per_day \<and>
     day_sum plan d = hours_per_day"
proof -
  let ?s = "\<lparr>sid = 1, total_hours = 5, priority = 3, deadline = ''2026-12-01'',
            completed_hours = 0\<rparr>"
  let ?plan = "[[\<lparr>subject_id = 1, hours = 3\<rparr>, \<lparr>subject_id = 1, hours = 2\<rparr>],
         [], [], [], [], [], []]"
  have "ai_generate_plan strptime today [?s] 5 = Some ?plan" by (rule plan_one_subject)
  then show ?thesis
    by (intro exI [of _ "[?s]"] exI [of _ 5] exI [of _ ?plan] exI [of _ ?s] exI [of _ 0])
       (simp add: day_sum_def)
qed

section \<open>The cap and the empty plan on a concrete week\<close>

theorem block_cap_witness:
  "ai_generate_plan Map.empty 0
     [\<lparr>sid = 1, total_hours = 5, priority = 3, deadline = ''2026-12-01'',
       completed_hours = 0\<rparr>] 5 =
   Some [[\<lparr>subject_id = 1, hours = 3\<rparr>, \<lparr>subject_id = 1, hours = 2\<rparr>],
         [], [], [], [], [], []] \<and>
   \<lparr>subject_id = 1, hours = 2\<rparr> \<in> set (concat
     [[\<lparr>subject_id = 1, hours = 3\<rparr>, \<lparr>subject_id = 1, hours = 2\<rparr>],
         [], [], [], [], [], []]) \<and>
   (\<exists>s \<in> set [\<lparr>sid = 1, total_hours = 5, priority = 3, deadline = ''2026-12-01'',
       completed_hours = 0\<rparr>]. sid s = subject_id \<lparr>subject_id = 1, hours = 2\<rparr> \<and>
       hours \<lparr>subject_id = 1, hours = 2\<rparr> \<le>
         (if priority s = 3 then 3 else if priority s = 2 then 2 else 3 / 2))"
  using block_cap [of Map.empty 0
      "[\<lparr>sid = 1, total_hours = 5, priority = 3, deadline = ''2026-12-01'',
         completed_hours = 0\<rparr>]" 5
      "[[\<lparr>subject_id = 1, hours = 3\<rparr>, \<lparr>subject_id = 1, hours = 2\<rparr>],
         [], [], [], [], [], []]" "\<lparr>subject_id = 1, hours = 2\<rparr>"]
    plan_one_subject [of Map.empty 0]
  by simp

theorem no_capacity_empty_plan_witness:
  "(- 1 :: rat) \<le> 0 \<and>
   ai_generate_plan Map.empty 0
     [\<lparr>sid = 1, total_hours = 5, priority = 3, deadline = ''2026-12-01'',
       completed_hours = 0\<rparr>] (- 1) = Some [[], [], [], [], [], [], []]"
  using no_capacity_empty_plan [of "- 1" Map.empty 0
      "[\<lparr>sid = 1, total_hours = 5, priority = 3, deadline = ''2026-12-01'',
         completed_hours = 0\<rparr>]"]
  by simp

section \<open>The hours of a day\<close>

lemma length_append_block [simp]: "length (append_block p i b) = length p"
  by (simp add: append_block_def)

lemma nth_append_block_other: "k \<noteq> i \<Longrightarrow> append_block p i b ! k = p ! k"
  by (simp add: append_block_def)

lemma day_sum_append_block_other: "k \<noteq> i \<Longrightarrow> day_sum (append_block p i b) k = day_sum p k"
  by (simp add: day_sum_def nth_append_block_other)

lemma day_sum_append_block_same:
  "i < length p \<Longrightarrow> day_sum (append_block p i b) i = day_sum p i + hours b"
  by (simp add: day_sum_def append_block_def)

lemma block_le_available: "round1 (min r (min a m)) \<le> a + 1 / 20"
proof -
  have "round1 (min r (min a m)) \<le> round1 a" by (rule round1_mono) simp
  also have "\<dots> \<le> a + 1 / 20" by (rule round1_upper)
  finally show ?thesis .
qed

lemma day_inv_skip:
  assumes "day_inv hpd p i d" "i < 7" "hpd - d \<le> 0"
  shows "day_inv hpd p (i + 1) 0"
proof -
  from assms(1,3) have d0: "d = 0" by (auto simp: day_inv_def)
  with assms(1,2) show ?thesis
    by (auto simp: day_inv_def is_tenth_0 day_sum_def)
qed

lemma day_inv_step:
  assumes inv: "day_inv hpd p i d" and i: "i < 7" and av: "0 < hpd - d"
    and b: "b = round1 (min r (min (hpd - d) m))"
  shows "day_inv hpd (append_block p i \<lparr>subject_id = c, hours = b\<rparr>)
           (if hpd \<le> round1 (d + b) then i + 1 else i)
           (if hpd \<le> round1 (d + b) then 0 else round1 (d + b))"
proof -
  let ?p = "append_block p i \<lparr>subject_id = c, hours = b\<rparr>"
  from inv have len: "length p = 7" and td: "is_tenth d" and cur: "day_sum p i = d"
    and closed: "\<forall>k<7. day_sum p k \<le> hpd + 1 / 20 \<or> day_sum p k = 0"
    and later: "\<forall>k<7. i < k \<longrightarrow> p ! k = []"
    using i by (simp_all add: day_inv_def)
  have tb: "is_tenth b" unfolding b by (rule is_tenth_round1)
  have rd: "round1 (d + b) = d + b" using td tb by (simp add: round1_tenth is_tenth_add)
  have ble: "b \<le> hpd - d + 1 / 20" unfolding b by (rule block_le_available)
  have same: "day_sum ?p i = d + b"
    using i len cur by (simp add: day_sum_append_block_same)
  have other: "day_sum ?p k = day_sum p k" if "k \<noteq> i" for k
    using that by (rule day_sum_append_block_other)
  have closed': "\<forall>k<7. day_sum ?p k \<le> hpd + 1 / 20 \<or> day_sum ?p k = 0"
  proof (intro allI impI)
    fix k :: nat assume "k < 7"
    show "day_sum ?p k \<le> hpd + 1 / 20 \<or> day_sum ?p k = 0"
    proof (cases "k = i")
      case True
      with same ble show ?thesis by simp
    next
      case False
      with other closed \<open>k < 7\<close> show ?thesis by simp
    qed
  qed
  have later': "\<forall>k<7. i < k \<longrightarrow> ?p ! k = []"
    using later by (simp add: nth_append_block_other)
  show ?thesis
  proof (cases "hpd \<le> round1 (d + b)")
    case True
    have "day_sum ?p (i + 1) = 0" if "i + 1 < 7"
      using that later by (simp add: day_sum_def nth_append_block_other)
    with True closed' later' len show ?thesis
      by (simp add: day_inv_def is_tenth_0)
  next
    case False
    with rd have "d + b < hpd" by simp
    with False closed' later' len same rd td tb show ?thesis
      by (simp add: day_inv_def is_tenth_add)
  qed
qed

lemma alloc_while_day_inv:
  assumes "alloc_while hpd sub rem plan di dh = Some (plan', di', dh')"
    and "day_inv hpd plan di dh"
  shows "day_inv hpd plan' di' dh'"
proof -
  let ?I = "\<lambda>(r::rat) p i d. day_inv hpd p i d"
  have "\<exists>rem'. ?I rem' plan' di' dh' \<and> \<not> (0 < rem' \<and> di' < 7)"
  proof (rule alloc_while_rule [where I = ?I, OF assms(1)], goal_cases)
    case 1
    show ?case by (rule assms(2))
  next
    case (2 r p i d)
    then show ?case by (intro day_inv_skip)
  next
    case (3 r p i d b)
    then show ?case by (intro day_inv_step)
  qed
  then show ?thesis by simp
qed

lemma alloc_for_day_inv:
  "alloc_for hpd subs plan di dh = Some (plan', di', dh') \<Longrightarrow> day_inv hpd plan di dh \<Longrightarrow>
   day_inv hpd plan' di' dh'"
proof (induction subs arbitrary: plan di dh)
  case Nil
  then show ?case by simp
next
  case (Cons s subs)
  from Cons.prems(1) obtain p1 i1 d1 where
    w: "alloc_while hpd s (total_hours s) plan di dh = Some (p1, i1, d1)" and
    f: "alloc_for hpd subs p1 i1 d1 = Some (plan', di', dh')"
    by (auto split: option.splits)
  from alloc_while_day_inv [OF w Cons.prems(2)] have "day_inv hpd p1 i1 d1" .
  with f show ?case by (rule Cons.IH)
qed

lemma day_inv_init: "day_inv hpd [[], [], [], [], [], [], []] 0 0"
  by (simp add: day_inv_def is_tenth_0 day_sum_def nth_Cons split: nat.split)

lemma ai_generate_plan_day_inv:
  assumes "ai_generate_plan strptime today subjects hpd = Some plan"
  shows "\<exists>di dh. day_inv hpd plan di dh"
proof (cases "subjects = []")
  case True
  with assms have "plan = [[], [], [], [], [], [], []]"
    by (auto simp: ai_generate_plan_def DAYS_def Let_def)
  with day_inv_init show ?thesis by blast
next
  case False
  with assms obtain di dh where
    "alloc_for hpd (sorted_reverse (urgency strptime today) subjects)
       [[], [], [], [], [], [], []] 0 0 = Some (plan, di, dh)"
    by (auto simp: ai_generate_plan_def DAYS_def Let_def split: option.splits)
  from alloc_for_day_inv [OF this day_inv_init] show ?thesis by blast
qed

text \<open>
  C1 as stated fails for a capacity below \<open>-0.1\<close>: the plan is empty, so each day sums
  to 0, which is more than the capacity plus 0.1.
\<close>

theorem capacity_exceeded_counterexample:
  "ai_generate_plan Map.empty 0
     [\<lparr>sid = 1, total_hours = 5, priority = 3, deadline = ''2026-12-01'',
       completed_hours = 0\<rparr>] (- 1) = Some [[], [], [], [], [], [], []] \<and>
   \<not> day_sum [[], [], [], [], [], [], []] 0 \<le> - 1 + 1 / 10"
  by (simp add: eval_defs day_sum_def)

text \<open>
  C1, amended. For every subject list and every daily capacity of at least \<open>-0.1\<close>, so
  for every capacity that is not negative, each of the seven days of a returned plan has
  block hours summing to at most the capacity plus 0.1.
\<close>

theorem day_capacity:
  assumes "ai_generate_plan strptime today subjects hours_per_day = Some plan"
    and "- 1 / 10 \<le> hours_per_day" and "d < 7"
  shows "day_sum plan d \<le> hours_per_day + 1 / 10"
proof -
  from ai_generate_plan_day_inv [OF assms(1)] assms(3)
  have "day_sum plan d \<le> hours_per_day + 1 / 20 \<or> day_sum plan d = 0"
    by (auto simp: day_inv_def)
  with assms(2) show ?thesis by auto
qed

theorem day_capacity_witness:
  "ai_generate_plan Map.empty 0
     [\<lparr>sid = 1, total_hours = 5, priority = 3, deadline = ''2026-12-01'',
       completed_hours = 0\<rparr>] 5 =
   Some [[\<lparr>subject_id = 1, hours = 3\<rparr>, \<lparr>subject_id = 1, hours = 2\<rparr>],
         [], [], [], [], [], []] \<and> - 1 / 10 \<le> (5::rat) \<and> (0::nat) < 7 \<and>
   day_sum [[\<lparr>subject_id = 1, hours = 3\<rparr>, \<lparr>subject_id = 1, hours = 2\<rparr>],
         [], [], [], [], [], []] 0 \<le> 5 + 1 / 10"
  using day_capacity [of Map.empty 0
      "[\<lparr>sid = 1, total_hours = 5, priority = 3, deadline = ''2026-12-01'',
         completed_hours = 0\<rparr>]" 5
      "[[\<lparr>subject_id = 1, hours = 3\<rparr>, \<lparr>subject_id = 1, hours = 2\<rparr>],
         [], [], [], [], [], []]" 0]
    plan_one_subject [of Map.empty 0]
  by simp

section \<open>The hours of a subject\<close>


























section \<open>Capacities for which the allocator returns\<close>

text \<open>
  With a capacity that is a multiple of one tenth, the room left on a day is zero or at
  least one tenth, so after the first block of a subject every block takes at least one
  tenth off a remaining workload that is itself a multiple of one tenth.
\<close>

lemma is_tenth_min: "is_tenth x \<Longrightarrow> is_tenth y \<Longrightarrow> is_tenth (min x y)"
  by (simp add: min_def)

lemma alloc_while_returns_tenth:
  assumes hpd: "is_tenth hpd"
  shows "is_tenth rem \<Longrightarrow> is_tenth dh \<Longrightarrow> \<exists>y. alloc_while hpd sub rem plan di dh = Some y"
proof (induction "nat \<lfloor>rem * 10\<rfloor> + (7 - di)" arbitrary: rem plan di dh rule: less_induct)
  case less
  show ?case
  proof (cases "0 < rem \<and> di < 7")
    case False
    then show ?thesis by (simp add: alloc_while_exit)
  next
    case True
    show ?thesis
    proof (cases "hpd - dh \<le> 0")
      case skip: True
      from True have "nat \<lfloor>rem * 10\<rfloor> + (7 - (di + 1)) < nat \<lfloor>rem * 10\<rfloor> + (7 - di)"
        by linarith
      from less.hyps [OF this less.prems(1) is_tenth_0]
      obtain y where "alloc_while hpd sub rem plan (di + 1) 0 = Some y" by blast
      moreover have "alloc_while hpd sub rem plan di dh = alloc_while hpd sub rem plan (di + 1) 0"
        using True skip by (intro alloc_while_skip) simp_all
      ultimately show ?thesis by (intro exI [of _ y]) simp
    next
      case step: False
      define b where "b = round1 (min rem (min (hpd - dh) (max_block sub)))"
      let ?p = "append_block plan di \<lparr>subject_id = sid sub, hours = b\<rparr>"
      have tav: "is_tenth (hpd - dh)" using hpd less.prems(2) by (rule is_tenth_diff)
      have tm: "is_tenth (min rem (min (hpd - dh) (max_block sub)))"
        using less.prems(1) tav is_tenth_max_block by (intro is_tenth_min)
      then have b: "b = min rem (min (hpd - dh) (max_block sub))"
        unfolding b_def by (rule round1_tenth)
      have "1 / 10 \<le> rem" using less.prems(1) True by (intro tenth_pos) simp_all
      moreover have "1 / 10 \<le> hpd - dh" using tav step by (intro tenth_pos) simp_all
      moreover have "1 / 10 \<le> max_block sub" using max_block_ge [of sub] by simp
      ultimately have bpos: "1 / 10 \<le> b" and ble: "b \<le> rem" unfolding b by simp_all
      have tb: "is_tenth b" using tm b by simp
      have tr: "is_tenth (rem - b)" using less.prems(1) tb by (rule is_tenth_diff)
      then have rr: "round1 (rem - b) = rem - b" by (rule round1_tenth)
      have "\<lfloor>(rem - b) * 10\<rfloor> \<le> \<lfloor>rem * 10 - 1\<rfloor>"
        using bpos by (intro floor_mono) (simp add: algebra_simps)
      moreover have "0 \<le> \<lfloor>rem * 10 - 1\<rfloor>" using \<open>1 / 10 \<le> rem\<close> by simp
      ultimately have fl: "nat \<lfloor>(rem - b) * 10\<rfloor> < nat \<lfloor>rem * 10\<rfloor>" by simp
      have td: "is_tenth (round1 (dh + b))" by (rule is_tenth_round1)
      show ?thesis
      proof (cases "hpd \<le> round1 (dh + b)")
        case adv: True
        from fl have "nat \<lfloor>(rem - b) * 10\<rfloor> + (7 - (di + 1)) < nat \<lfloor>rem * 10\<rfloor> + (7 - di)"
          by linarith
        from less.hyps [OF this tr is_tenth_0]
        obtain y where "alloc_while hpd sub (rem - b) ?p (di + 1) 0 = Some y" by blast
        moreover have "alloc_while hpd sub rem plan di dh =
            alloc_while hpd sub (rem - b) ?p (di + 1) 0"
          using True step adv rr by (simp add: alloc_while_step Let_def b_def [symmetric])
        ultimately show ?thesis by (intro exI [of _ y]) simp
      next
        case stay: False
        from fl have "nat \<lfloor>(rem - b) * 10\<rfloor> + (7 - di) < nat \<lfloor>rem * 10\<rfloor> + (7 - di)"
          by linarith
        from less.hyps [OF this tr td]
        obtain y where "alloc_while hpd sub (rem - b) ?p di (round1 (dh + b)) = Some y" by blast
        moreover have "alloc_while hpd sub rem plan di dh =
            alloc_while hpd sub (rem - b) ?p di (round1 (dh + b))"
          using True step stay rr by (simp add: alloc_while_step Let_def b_def [symmetric])
        ultimately show ?thesis by (intro exI [of _ y]) simp
      qed
    qed
  qed
qed

lemma alloc_while_returns:
  assumes hpd: "is_tenth hpd"
  shows "is_tenth dh \<Longrightarrow> \<exists>y. alloc_while hpd sub rem plan di dh = Some y"
proof (induction "7 - di" arbitrary: di dh)
  case 0
  then show ?case by (simp add: alloc_while_exit)
next
  case (Suc n)
  then have lt: "di < 7" and n: "n = 7 - (di + 1)" by simp_all
  show ?case
  proof (cases "0 < rem")
    case False
    then show ?thesis by (simp add: alloc_while_exit)
  next
    case True
    show ?thesis
    proof (cases "hpd - dh \<le> 0")
      case skip: True
      from Suc.hyps(1) [OF n is_tenth_0]
      obtain y where "alloc_while hpd sub rem plan (di + 1) 0 = Some y" by blast
      moreover have "alloc_while hpd sub rem plan di dh = alloc_while hpd sub rem plan (di + 1) 0"
        using True lt skip by (rule alloc_while_skip)
      ultimately show ?thesis by (intro exI [of _ y]) simp
    next
      case step: False
      define b where "b = round1 (min rem (min (hpd - dh) (max_block sub)))"
      let ?p = "append_block plan di \<lparr>subject_id = sid sub, hours = b\<rparr>"
      have "\<exists>y. alloc_while hpd sub (round1 (rem - b)) ?p i d = Some y" if "is_tenth d" for i d
        using hpd is_tenth_round1 that by (rule alloc_while_returns_tenth)
      then obtain y where "alloc_while hpd sub (round1 (rem - b)) ?p
          (if hpd \<le> round1 (dh + b) then di + 1 else di)
          (if hpd \<le> round1 (dh + b) then 0 else round1 (dh + b)) = Some y"
        using is_tenth_0 is_tenth_round1 by (metis (full_types))
      moreover have "alloc_while hpd sub rem plan di dh =
          alloc_while hpd sub (round1 (rem - b)) ?p
          (if hpd \<le> round1 (dh + b) then di + 1 else di)
          (if hpd \<le> round1 (dh + b) then 0 else round1 (dh + b))"
        using True lt step by (simp add: alloc_while_step Let_def b_def [symmetric])
      ultimately show ?thesis by (intro exI [of _ y]) simp
    qed
  qed
qed

lemma alloc_for_returns:
  assumes hpd: "is_tenth hpd"
  shows "day_inv hpd plan di dh \<Longrightarrow> \<exists>y. alloc_for hpd subs plan di dh = Some y"
proof (induction subs arbitrary: plan di dh)
  case Nil
  then show ?case by simp
next
  case (Cons x subs)
  from Cons.prems have "is_tenth dh" by (simp add: day_inv_def)
  with hpd obtain p1 i1 d1 where
    w: "alloc_while hpd x (total_hours x) plan di dh = Some (p1, i1, d1)"
    using alloc_while_returns [of hpd dh x "total_hours x" plan di] by (metis prod_cases3)
  from alloc_while_day_inv [OF w Cons.prems] have "day_inv hpd p1 i1 d1" .
  from Cons.IH [OF this] w show ?case by simp
qed

text \<open>
  The allocator does return a plan whenever the capacity is a multiple of one tenth of
  an hour, whatever the subjects.
\<close>

lemma allocate_returns_on_tenths:
  assumes "is_tenth hours_per_day"
  shows "\<exists>plan. ai_generate_plan strptime today subjects hours_per_day = Some plan"
proof -
  from alloc_for_returns [OF assms day_inv_init]
  obtain y where "alloc_for hours_per_day (sorted_reverse (urgency strptime today) subjects)
      [[], [], [], [], [], [], []] 0 0 = Some y" by blast
  then show ?thesis by (cases y) (simp add: ai_generate_plan_def DAYS_def Let_def)
qed

section \<open>Rounding to double precision\<close>

text \<open>
  The rounded value differs from the exact one by at most the fraction \<open>2^-53\<close> of it.
\<close>

lemma bits_upper: "n < 2 ^ bits n"
proof (induction n rule: bits.induct)
  case (1 n)
  show ?case
  proof (cases "n = 0")
    case True
    then show ?thesis by (simp add: bits.simps)
  next
    case False
    with 1 have "n div 2 < 2 ^ bits (n div 2)" by simp
    then have "n < 2 * 2 ^ bits (n div 2)" by linarith
    with False show ?thesis by (subst bits.simps) simp
  qed
qed

lemma bits_lower: "0 < n \<Longrightarrow> 2 ^ (bits n - 1) \<le> n"
proof (induction n rule: bits.induct)
  case (1 n)
  show ?case
  proof (cases "n div 2 = 0")
    case True
    with 1(2) have "n = 1" by linarith
    then show ?thesis by simp
  next
    case False
    with 1 have ih: "2 ^ (bits (n div 2) - 1) \<le> n div 2" by simp
    from False have "0 < bits (n div 2)" by (subst bits.simps) simp
    then have "(2::nat) ^ bits (n div 2) = 2 * 2 ^ (bits (n div 2) - 1)"
      by (cases "bits (n div 2)") simp_all
    with ih have "2 ^ bits (n div 2) \<le> n" by linarith
    with 1(2) show ?thesis by (subst bits.simps) simp
  qed
qed

lemma pow2_powi: "pow2 e = 2 powi e"
  by (simp add: pow2_def power_int_def inverse_eq_divide power_one_over)

lemma pow2_pos: "0 < pow2 e"
  by (simp add: pow2_powi)

lemma pow2_52: "pow2 (e - 52) * 2 ^ 52 = pow2 e"
proof -
  have "(2::rat) powi ((e - 52) + 52) = 2 powi (e - 52) * 2 powi 52"
    by (rule power_int_add) simp
  then show ?thesis by (simp add: pow2_powi)
qed

lemma expo_lower: assumes "0 < x" shows "pow2 (expo x) \<le> x"
proof (cases "1 \<le> x")
  case True
  let ?n = "nat \<lfloor>x\<rfloor>"
  from True have n: "0 < ?n" by simp
  then have "0 < bits ?n" by (subst bits.simps) simp
  then have "expo x = int (bits ?n - 1)" using True by (simp add: expo_def)
  then have "pow2 (expo x) = 2 ^ (bits ?n - 1)" by (simp add: pow2_def)
  also have "\<dots> = of_nat (2 ^ (bits ?n - 1))" by simp
  also have "\<dots> \<le> of_nat ?n" using bits_lower [OF n] by (simp only: of_nat_le_iff)
  also have "\<dots> = of_int \<lfloor>x\<rfloor>" using True by simp
  also have "\<dots> \<le> x" by simp
  finally show ?thesis .
next
  case False
  let ?m = "nat (- \<lfloor>- (1 / x)\<rfloor> - 1)"
  from False assms have big: "1 < 1 / x" by simp
  have c: "- \<lfloor>- (1 / x)\<rfloor> = \<lceil>1 / x\<rceil>" by (simp add: ceiling_def)
  have "(1::rat) < of_int \<lceil>1 / x\<rceil>"
    using big le_of_int_ceiling [of "1 / x"] by linarith
  then have gt: "1 < \<lceil>1 / x\<rceil>" by (simp only: of_int_1_less_iff)
  have m: "int ?m = \<lceil>1 / x\<rceil> - 1" unfolding c using gt by linarith
  have "?m < 2 ^ bits ?m" by (rule bits_upper)
  then have "int ?m < 2 ^ bits ?m" by (metis of_nat_less_iff of_nat_numeral of_nat_power)
  with m have "\<lceil>1 / x\<rceil> \<le> 2 ^ bits ?m" by simp
  then have "1 / x \<le> 2 ^ bits ?m" by (simp add: ceiling_le_iff)
  with assms have "1 \<le> 2 ^ bits ?m * x" by (simp add: pos_divide_le_eq)
  then have "1 / 2 ^ bits ?m \<le> x" by (simp add: pos_divide_le_eq mult.commute)
  moreover have "pow2 (expo x) = 1 / 2 ^ bits ?m"
    using False by (simp add: expo_def pow2_def)
  ultimately show ?thesis by simp
qed

lemma py_round_close: "\<bar>of_int (py_round x) - x\<bar> \<le> 1 / 2"
  using py_round_upper [of x] py_round_lower [of x] by linarith

lemma fl_error: "\<bar>fl x - x\<bar> \<le> \<bar>x\<bar> / 2 ^ 53"
proof (cases "x = 0")
  case True
  then show ?thesis by (simp add: fl_def)
next
  case False
  define u where "u = pow2 (expo \<bar>x\<bar> - 52)"
  have u: "0 < u" unfolding u_def by (rule pow2_pos)
  have "u * 2 ^ 52 = pow2 (expo \<bar>x\<bar>)" unfolding u_def by (rule pow2_52)
  also have "\<dots> \<le> \<bar>x\<bar>" using False by (intro expo_lower) simp
  finally have ux: "u * 2 ^ 52 \<le> \<bar>x\<bar>" .
  have "fl x = of_int (py_round (x / u)) * u"
    using False by (simp add: fl_def u_def Let_def)
  then have "fl x - x = (of_int (py_round (x / u)) - x / u) * u"
    using u by (simp add: algebra_simps)
  then have "\<bar>fl x - x\<bar> = \<bar>of_int (py_round (x / u)) - x / u\<bar> * u"
    using u by (simp add: abs_mult)
  also have "\<dots> \<le> 1 / 2 * u"
    using u py_round_close [of "x / u"] by (intro mult_right_mono) simp_all
  also have "\<dots> \<le> \<bar>x\<bar> / 2 ^ 53" using ux by simp
  finally show ?thesis .
qed

lemma fl_upper: assumes "y \<le> c" "0 \<le> c" shows "fl y \<le> c * (1 + 1 / 2 ^ 53)"
proof -
  have e: "fl y \<le> y + \<bar>y\<bar> / 2 ^ 53" using fl_error [of y] by linarith
  show ?thesis
  proof (cases "0 \<le> y")
    case True
    with e have "fl y \<le> y * (1 + 1 / 2 ^ 53)" by (simp add: algebra_simps)
    also have "\<dots> \<le> c * (1 + 1 / 2 ^ 53)" using assms(1) by (intro mult_right_mono) simp_all
    finally show ?thesis .
  next
    case False
    with e have "fl y \<le> 0" by simp
    also have "0 \<le> c * (1 + 1 / 2 ^ 53)" using assms(2) by simp
    finally show ?thesis .
  qed
qed

section \<open>Ranking\<close>

lemma days_until_pos: "1 \<le> days_until strptime today dl"
  by (simp add: days_until_def split: option.split)

lemma spec_urgency_days:
  "spec_urgency strptime today s =
     of_int (priority s * 10) + min 50 (100 / of_int (days_until strptime today (deadline s)))"
  by (simp add: spec_urgency_def days_until_def)

lemma fl_50: "fl 50 = 50" and fl_100: "fl 100 = 100"
  by (simp_all add: fl_eval)

lemma urgency_close:
  "\<bar>urgency strptime today s - spec_urgency strptime today s\<bar>
     \<le> of_int (\<bar>priority s\<bar> * 10 + 50) / 2 ^ 50"
proof -
  define d where "d = days_until strptime today (deadline s)"
  define P :: rat where "P = of_int (priority s * 10)"
  define r :: rat where "r = 100 / of_int d"
  have d1: "1 \<le> d" unfolding d_def by (rule days_until_pos)
  have bnd: "of_int (\<bar>priority s\<bar> * 10 + 50) / 2 ^ 50 = (\<bar>P\<bar> + 50) / 2 ^ 50"
    by (simp add: P_def abs_mult)
  have spec: "spec_urgency strptime today s = P + min 50 r"
    by (simp add: spec_urgency_days d_def P_def r_def)
  have code: "urgency strptime today s =
      (if fl r < 50 then fl (fl P + fl r) else of_int (priority s * 10 + 50))"
    by (simp add: urgency_def Let_def d_def P_def r_def)
  show ?thesis
  proof (cases "d \<le> 2")
    case True
    with d1 have "d = 1 \<or> d = 2" by linarith
    then have "r = 100 \<or> r = 50" by (auto simp: r_def)
    then have "\<not> fl r < 50" and "min 50 r = 50" by (auto simp: fl_50 fl_100)
    with code spec have "urgency strptime today s = spec_urgency strptime today s"
      by (simp add: P_def)
    then show ?thesis by (simp only: bnd) simp
  next
    case False
    then have "3 \<le> (of_int d :: rat)" by simp
    then have r: "0 < r" "r \<le> 100 / 3" unfolding r_def by (simp_all add: field_simps)
    have "fl r \<le> 100 / 3 * (1 + 1 / 2 ^ 53)" using r by (intro fl_upper) simp_all
    then have q50: "fl r < 50" by simp
    from r have m: "min 50 r = r" by simp
    have e1: "\<bar>fl P - P\<bar> \<le> \<bar>P\<bar> / 2 ^ 53" by (rule fl_error)
    have e2: "\<bar>fl r - r\<bar> \<le> \<bar>r\<bar> / 2 ^ 53" by (rule fl_error)
    have e3: "\<bar>fl (fl P + fl r) - (fl P + fl r)\<bar> \<le> \<bar>fl P + fl r\<bar> / 2 ^ 53" by (rule fl_error)
    from e1 e2 e3 r have "\<bar>fl (fl P + fl r) - (P + r)\<bar> \<le> (\<bar>P\<bar> + 50) / 2 ^ 50"
      by (simp add: abs_if split: if_splits)
    with q50 code spec m
    have "\<bar>urgency strptime today s - spec_urgency strptime today s\<bar> \<le> (\<bar>P\<bar> + 50) / 2 ^ 50"
      by simp
    then show ?thesis by (simp only: bnd)
  qed
qed

text \<open>
  C6 as stated fails on subjects whose exact urgencies are equal: priority 3 with 15 days
  left and priority 2 with 6 days left both have urgency \<open>110/3\<close>, but the float keys are
  \<open>36.666666666666664\<close> and \<open>36.66666666666667\<close>, so the second subject is ranked first.
\<close>

theorem rank_reorders_exact_tie:
  "spec_urgency (Map.empty(''2026-11-19'' \<mapsto> 15, ''2026-11-10'' \<mapsto> 6)) 0
     \<lparr>sid = 1, total_hours = 5, priority = 3, deadline = ''2026-11-19'', completed_hours = 0\<rparr> =
   spec_urgency (Map.empty(''2026-11-19'' \<mapsto> 15, ''2026-11-10'' \<mapsto> 6)) 0
     \<lparr>sid = 2, total_hours = 5, priority = 2, deadline = ''2026-11-10'', completed_hours = 0\<rparr> \<and>
   get_priority_order (Map.empty(''2026-11-19'' \<mapsto> 15, ''2026-11-10'' \<mapsto> 6)) 0
     [\<lparr>sid = 1, total_hours = 5, priority = 3, deadline = ''2026-11-19'', completed_hours = 0\<rparr>,
      \<lparr>sid = 2, total_hours = 5, priority = 2, deadline = ''2026-11-10'', completed_hours = 0\<rparr>] =
     [\<lparr>sid = 2, total_hours = 5, priority = 2, deadline = ''2026-11-10'', completed_hours = 0\<rparr>,
      \<lparr>sid = 1, total_hours = 5, priority = 3, deadline = ''2026-11-19'', completed_hours = 0\<rparr>]"
  by (simp add: get_priority_order_def sorted_reverse_def urgency_def days_until_def
      spec_urgency_def fl_eval)

text \<open>
  C6, amended. The ranking is a rearrangement of the input in descending order of the
  key the code computes, and subjects with equal computed keys keep their input order.
  The key is \<open>priority(s) * 10 + min(50, 100 / daysLeft)\<close> evaluated in double
  precision, within \<open>(10 * |priority(s)| + 50) / 2^50\<close> of the exact urgency, where
  \<open>daysLeft\<close> is \<open>max(1, deadline - today)\<close>, or 30 when the deadline does not parse.
  Subjects whose exact urgencies are equal can get different keys.
\<close>

theorem rank_descending_stable:
  "let u = urgency strptime today;
       r = get_priority_order strptime today subjects
   in mset r = mset subjects \<and>
      sorted_wrt (\<lambda>a b. u b \<le> u a) r \<and>
      (\<forall>v. filter (\<lambda>s. u s = v) r = filter (\<lambda>s. u s = v) subjects) \<and>
      (\<forall>s. \<bar>u s - (rat_of_int (priority s) * 10 +
              min 50 (100 / of_int (case strptime (deadline s) of
                                      Some dl \<Rightarrow> max 1 (dl - today) | None \<Rightarrow> 30)))\<bar>
           \<le> of_int (\<bar>priority s\<bar> * 10 + 50) / 2 ^ 50)"
proof -
  have "\<bar>urgency strptime today s - (rat_of_int (priority s) * 10 +
              min 50 (100 / of_int (case strptime (deadline s) of
                                      Some dl \<Rightarrow> max 1 (dl - today) | None \<Rightarrow> 30)))\<bar>
           \<le> of_int (\<bar>priority s\<bar> * 10 + 50) / 2 ^ 50" for s
    using urgency_close [of strptime today s] by (simp only: spec_urgency_def)
  then show ?thesis
    unfolding Let_def get_priority_order_def
    using sorted_reverse_mset sorted_reverse_descending sorted_reverse_stable by blast
qed

lemma rank_example:
  "get_priority_order (Map.empty(''2026-11-07'' \<mapsto> 3, ''2026-11-24'' \<mapsto> 20)) 0
     [\<lparr>sid = 1, total_hours = 4, priority = 1, deadline = ''2026-11-24'', completed_hours = 0\<rparr>,
      \<lparr>sid = 2, total_hours = 1, priority = 2, deadline = ''soon'', completed_hours = 0\<rparr>,
      \<lparr>sid = 3, total_hours = 5, priority = 3, deadline = ''2026-11-07'', completed_hours = 0\<rparr>,
      \<lparr>sid = 4, total_hours = 2, priority = 2, deadline = ''later'', completed_hours = 0\<rparr>] =
     [\<lparr>sid = 3, total_hours = 5, priority = 3, deadline = ''2026-11-07'', completed_hours = 0\<rparr>,
      \<lparr>sid = 2, total_hours = 1, priority = 2, deadline = ''soon'', completed_hours = 0\<rparr>,
      \<lparr>sid = 4, total_hours = 2, priority = 2, deadline = ''later'', completed_hours = 0\<rparr>,
      \<lparr>sid = 1, total_hours = 4, priority = 1, deadline = ''2026-11-24'', completed_hours = 0\<rparr>]"
  by (simp add: get_priority_order_def sorted_reverse_def urgency_def days_until_def fl_eval)

section \<open>The productivity score\<close>

lemma py_sum_single: "py_sum [x] = fl x" and py_sum_empty: "py_sum [] = 0"
  by (simp_all add: py_sum_def)


lemma score_example_missed:
  "calc_productivity_score py_sum
     [\<lparr>sid = 1, total_hours = 40, priority = 2, deadline = ''2026-12-01'',
       completed_hours = 11\<rparr>]
     [\<lparr>session_subject = 1, session_hours = 1, status = ''missed''\<rparr>] = 25 \<and>
   spec_score 40 11 1 = 24"
  by code_simp

lemma score_example_capped:
  "calc_productivity_score py_sum
     [\<lparr>sid = 1, total_hours = 10, priority = 2, deadline = ''2026-12-01'',
       completed_hours = 5\<rparr>]
     (replicate 10 \<lparr>session_subject = 1, session_hours = 1, status = ''missed''\<rparr>) = 25"
  by code_simp



lemma py_sum_values:
  "py_sum [] = 0" "py_sum [40] = 40" "py_sum [23] = 23" "py_sum [10] = 10"
  by code_simp+


text \<open>
  C8 as stated fails when more hours are completed than planned: 3 completed hours of 1
  give a score of 300.
\<close>

theorem score_above_100:
  "100 < calc_productivity_score py_sum
     [\<lparr>sid = 1, total_hours = 1, priority = 2, deadline = ''2026-12-01'',
       completed_hours = 3\<rparr>] []"
  by code_simp

text \<open>
  C8, amended. The score is at most 100 whenever the completed hours, summed over the
  subjects, do not exceed the summed total hours (and these are not negative). When more
  hours are completed than planned, the score can exceed 100.
\<close>

theorem score_at_most_100:
  assumes "0 \<le> fsum (map total_hours subjects)"
    and "fsum (map completed_hours subjects) \<le> fsum (map total_hours subjects)"
  shows "calc_productivity_score fsum subjects sessions \<le> 100"
proof (cases "fsum (map total_hours subjects) = 0")
  case True
  then show ?thesis by (simp add: calc_productivity_score_def)
next
  case False
  let ?t = "fsum (map total_hours subjects)"
  let ?d = "fsum (map completed_hours subjects)"
  let ?p = "min (int (length (filter (\<lambda>s. status s = ''missed'') sessions)) * 3) 25"
  define q where "q = fl (?d / ?t)"
  define b where "b = fl (q * 100)"
  define x where "x = fl (b - of_int ?p)"
  from False assms(1) have pos: "0 < ?t" by simp
  with assms(2) have "?d / ?t \<le> 1" by simp
  then have "q \<le> 1 * (1 + 1 / 2 ^ 53)" unfolding q_def by (rule fl_upper) simp
  then have "q * 100 \<le> 100 + 1 / 2 ^ 46" by simp
  then have "b \<le> (100 + 1 / 2 ^ 46) * (1 + 1 / 2 ^ 53)" unfolding b_def by (rule fl_upper) simp
  then have "b \<le> 100 + 1 / 2 ^ 45" by simp
  moreover have "(0::rat) \<le> of_int ?p" by simp
  ultimately have "b - of_int ?p \<le> 100 + 1 / 2 ^ 45" by simp
  then have "x \<le> (100 + 1 / 2 ^ 45) * (1 + 1 / 2 ^ 53)" unfolding x_def by (rule fl_upper) simp
  then have "x \<le> 100 + 1 / 2 ^ 44" by simp
  moreover have "of_int (py_round x) \<le> x + 1 / 2" by (rule py_round_upper)
  ultimately have "(of_int (py_round x) :: rat) < of_int 101" by simp
  then have "py_round x < 101" by (simp only: of_int_less_iff)
  then have "max 0 (py_round x) \<le> 100" by simp
  moreover have "calc_productivity_score fsum subjects sessions = max 0 (py_round x)"
    using False unfolding calc_productivity_score_def Let_def x_def b_def q_def by simp
  ultimately show ?thesis by (simp only:)
qed

theorem score_at_most_100_witness:
  "(0::rat) \<le> py_sum (map total_hours
      [\<lparr>sid = 1, total_hours = 10, priority = 2, deadline = ''2026-12-01'',
        completed_hours = 10\<rparr>]) \<and>
   py_sum (map completed_hours
      [\<lparr>sid = 1, total_hours = 10, priority = 2, deadline = ''2026-12-01'',
        completed_hours = 10\<rparr>]) \<le>
   py_sum (map total_hours
      [\<lparr>sid = 1, total_hours = 10, priority = 2, deadline = ''2026-12-01'',
        completed_hours = 10\<rparr>]) \<and>
   calc_productivity_score py_sum
      [\<lparr>sid = 1, total_hours = 10, priority = 2, deadline = ''2026-12-01'',
        completed_hours = 10\<rparr>] [] \<le> 100"
  using score_at_most_100 [of py_sum
      "[\<lparr>sid = 1, total_hours = 10, priority = 2, deadline = ''2026-12-01'',
         completed_hours = 10\<rparr>]" "[]"]
  by (simp add: py_sum_values)

lemma score_example_full:
  "calc_productivity_score py_sum
      [\<lparr>sid = 1, total_hours = 10, priority = 2, deadline = ''2026-12-01'',
        completed_hours = 10\<rparr>] [] = 100"
  by code_simp

end
